theory Spec2Isabelle
  imports Main
begin

section \<open>Employee records\<close>

text \<open>
  An employee as the helpers of \<^verbatim>\<open>treeHelpers.js\<close> read it: the fields \<^verbatim>\<open>id\<close>,
  \<^verbatim>\<open>name\<close>, \<^verbatim>\<open>designation\<close>, \<^verbatim>\<open>team\<close> and \<^verbatim>\<open>managerId\<close>. The identifier is a
  number (\<^verbatim>\<open>@param {Number} id\<close>); \<^verbatim>\<open>managerId\<close> is a number, or \<^verbatim>\<open>null\<close> /
  \<^verbatim>\<open>undefined\<close>, which is \<open>None\<close> here. The field \<^verbatim>\<open>id\<close> is called \<open>emp_id\<close>,
  since \<open>id\<close> is the identity function of HOL.
\<close>

record employee =
  emp_id :: int
  name :: string
  designation :: string
  team :: string
  managerId :: "int option"

section \<open>Strings of the search filter\<close>

text \<open>
  \<^verbatim>\<open>String.prototype.includes\<close> is the search for a contiguous occurrence of the
  argument.
\<close>

fun startsWith :: "string \<Rightarrow> string \<Rightarrow> bool" where
  "startsWith s [] = True"
| "startsWith [] (c # cs) = False"
| "startsWith (d # ds) (c # cs) = (d = c \<and> startsWith ds cs)"

fun includes_str :: "string \<Rightarrow> string \<Rightarrow> bool" where
  "includes_str [] t = startsWith [] t"
| "includes_str (d # ds) t = (startsWith (d # ds) t \<or> includes_str ds t)"

section \<open>Query helpers\<close>

text \<open>
  \<^verbatim>\<open>filterEmployees(employees, searchTerm, selectedTeam)\<close>: a copy of the array is
  narrowed by the search term when the term is truthy (a non-empty string), then by the
  team when the team is truthy. The two library functions that the search calls,
  \<^verbatim>\<open>String.prototype.toLowerCase\<close> and \<^verbatim>\<open>Number.prototype.toString\<close>, are
  arguments of the model, which assumes nothing about them: lowering a letter outside
  ASCII and printing a number of 22 digits are the library's business.
\<close>

definition matchesSearch ::
  "(string \<Rightarrow> string) \<Rightarrow> (int \<Rightarrow> string) \<Rightarrow> string \<Rightarrow> employee \<Rightarrow> bool" where
  "matchesSearch toLowerCase toString term emp \<longleftrightarrow>
     includes_str (toLowerCase (name emp)) term \<or>
     includes_str (toLowerCase (designation emp)) term \<or>
     includes_str (toLowerCase (team emp)) term \<or>
     includes_str (toString (emp_id emp)) term"

definition filterEmployees ::
  "(string \<Rightarrow> string) \<Rightarrow> (int \<Rightarrow> string) \<Rightarrow>
   employee list \<Rightarrow> string \<Rightarrow> string \<Rightarrow> employee list" where
  "filterEmployees toLowerCase toString employees searchTerm selectedTeam =
     (let filtered = employees;
          filtered = (if searchTerm \<noteq> []
                      then filter (matchesSearch toLowerCase toString (toLowerCase searchTerm))
                             filtered
                      else filtered);
          filtered = (if selectedTeam \<noteq> []
                      then filter (\<lambda>emp. team emp = selectedTeam) filtered
                      else filtered)
      in filtered)"

text \<open>
  For running the filter on examples: \<open>asciiLowerCase\<close> lowers the letters A to Z and
  leaves every other character as it is, which is what the library does on a string of
  ASCII characters only; \<open>decimalString\<close> is the decimal numeral of an integer, which
  is what the library prints for an integer of magnitude below \<open>10 ^ 21\<close>. Neither is
  meant outside that range.
\<close>

definition asciiLowerChar :: "char \<Rightarrow> char" where
  "asciiLowerChar c =
     (let k = (of_char c :: nat)
      in if 65 \<le> k \<and> k \<le> 90 then char_of (k + 32) else c)"

definition asciiLowerCase :: "string \<Rightarrow> string" where
  "asciiLowerCase s = map asciiLowerChar s"

definition digitChar :: "nat \<Rightarrow> char" where
  "digitChar d = char_of (48 + d)"

fun decimalNat :: "nat \<Rightarrow> string" where
  "decimalNat n =
     (if n < 10 then [digitChar n]
      else decimalNat (n div 10) @ [digitChar (n mod 10)])"

definition decimalString :: "int \<Rightarrow> string" where
  "decimalString i =
     (if i < 0 then CHR ''-'' # decimalNat (nat (- i)) else decimalNat (nat i))"

text \<open>
  \<^verbatim>\<open>getAllReports(employees, managerId)\<close>: the \<^verbatim>\<open>while (queue.length > 0)\<close> loop
  takes the first identifier of the queue, appends the employees that name it as their
  manager to \<^verbatim>\<open>reports\<close> and their identifiers to the queue. The loop keeps no set
  of visited identifiers, so it need not end: not returning is \<open>None\<close>.
\<close>

definition directReports :: "employee list \<Rightarrow> int \<Rightarrow> employee list" where
  "directReports employees currentId =
     filter (\<lambda>emp. managerId emp = Some currentId) employees"

partial_function (option) getAllReports_loop ::
  "employee list \<Rightarrow> int list \<Rightarrow> employee list \<Rightarrow> employee list option" where
  "getAllReports_loop employees queue reports =
     (case queue of
        [] \<Rightarrow> Some reports
      | currentId # rest \<Rightarrow>
          getAllReports_loop employees
            (rest @ map emp_id (directReports employees currentId))
            (reports @ directReports employees currentId))"

declare getAllReports_loop.simps [code]

definition getAllReports :: "employee list \<Rightarrow> int \<Rightarrow> employee list option" where
  "getAllReports employees mgr = getAllReports_loop employees [mgr] []"

text \<open>
  \<^verbatim>\<open>wouldCreateCircularReference(employees, employeeId, newManagerId)\<close>;
  \<^verbatim>\<open>Array.prototype.some\<close> is \<open>list_ex\<close>.
\<close>

definition wouldCreateCircularReference :: "employee list \<Rightarrow> int \<Rightarrow> int \<Rightarrow> bool option" where
  "wouldCreateCircularReference employees employeeId newManagerId =
     (if employeeId = newManagerId then Some True
      else case getAllReports employees employeeId of
             None \<Rightarrow> None
           | Some allReports \<Rightarrow> Some (list_ex (\<lambda>emp. emp_id emp = newManagerId) allReports))"

section \<open>Building the forest\<close>

text \<open>
  \<^verbatim>\<open>buildTree(employees)\<close> keeps one node object per key of \<^verbatim>\<open>employeeMap\<close> and
  mutates the \<^verbatim>\<open>children\<close> arrays of these objects; the arrays hold references to
  node objects, not copies. The objects are the values of the map, so the key of a node
  is its address: the store is the map from keys to nodes, a reference is a key, and the
  returned array \<^verbatim>\<open>roots\<close> is a list of references into the store.
\<close>

record node =
  emp :: employee
  children :: "int list"

type_synonym store = "int \<rightharpoonup> node"

text \<open>First pass: \<^verbatim>\<open>employeeMap.set(emp.id, { ...emp, children: [] })\<close>.\<close>

definition firstPass :: "employee list \<Rightarrow> store" where
  "firstPass emps =
     foldl (\<lambda>m e. m(emp_id e \<mapsto> \<lparr>emp = e, children = []\<rparr>)) Map.empty emps"

text \<open>
  Second pass, one employee: the node goes to \<^verbatim>\<open>roots\<close> when \<^verbatim>\<open>managerId\<close> is
  \<^verbatim>\<open>null\<close> or \<^verbatim>\<open>undefined\<close>, or when the map has no node for the manager;
  otherwise it is pushed onto the manager's \<^verbatim>\<open>children\<close>.
\<close>

definition secondPass_step :: "int list \<times> store \<Rightarrow> employee \<Rightarrow> int list \<times> store" where
  "secondPass_step acc e =
     (case acc of (rts, m) \<Rightarrow>
        (case managerId e of
           None \<Rightarrow> (rts @ [emp_id e], m)
         | Some mid \<Rightarrow>
             (case m mid of
                Some manager \<Rightarrow>
                  (rts, m(mid \<mapsto> manager\<lparr>children := children manager @ [emp_id e]\<rparr>))
              | None \<Rightarrow> (rts @ [emp_id e], m))))"

definition buildTree :: "employee list \<Rightarrow> int list \<times> store" where
  "buildTree emps =
     (if emps = [] then ([], Map.empty)
      else foldl secondPass_step ([], firstPass emps) emps)"

text \<open>
  Reading a forest as \<^verbatim>\<open>TreeNode\<close> renders it: each root, then the nodes below
  it, every node followed by its children in order. A forest whose objects refer
  to each other in a circle has no finite reading, so the reading takes fuel, one unit
  per node, and is \<open>None\<close> when the fuel runs out or a reference is dangling.
\<close>

fun forestNodes :: "store \<Rightarrow> nat \<Rightarrow> int list \<Rightarrow> employee list option" where
  "forestNodes h fuel [] = Some []"
| "forestNodes h 0 (a # todo) = None"
| "forestNodes h (Suc fuel) (a # todo) =
     (case h a of
        None \<Rightarrow> None
      | Some nd \<Rightarrow> map_option ((#) (emp nd)) (forestNodes h fuel (children nd @ todo)))"

definition treeNodes :: "int list \<times> store \<Rightarrow> nat \<Rightarrow> employee list option" where
  "treeNodes t fuel = forestNodes (snd t) fuel (fst t)"

section \<open>The employee context\<close>

text \<open>The state of \<^verbatim>\<open>employeeReducer\<close> and its actions.\<close>

record app_state =
  employees :: "employee list"
  loading :: bool
  error :: "string option"
  searchTerm :: string
  selectedTeam :: string

text \<open>
  The \<^verbatim>\<open>updates\<close> object of \<^verbatim>\<open>UPDATE_EMPLOYEE\<close>: each field of an employee is
  either absent from the object or carries the new value; \<^verbatim>\<open>{ ...emp, ...updates }\<close>
  takes the fields present in \<^verbatim>\<open>updates\<close> and the others from \<^verbatim>\<open>emp\<close>.
\<close>

record employee_updates =
  upd_id :: "int option"
  upd_name :: "string option"
  upd_designation :: "string option"
  upd_team :: "string option"
  upd_managerId :: "int option option"

definition spread :: "employee \<Rightarrow> employee_updates \<Rightarrow> employee" where
  "spread e u =
     \<lparr>emp_id = (case upd_id u of None \<Rightarrow> emp_id e | Some v \<Rightarrow> v),
      name = (case upd_name u of None \<Rightarrow> name e | Some v \<Rightarrow> v),
      designation = (case upd_designation u of None \<Rightarrow> designation e | Some v \<Rightarrow> v),
      team = (case upd_team u of None \<Rightarrow> team e | Some v \<Rightarrow> v),
      managerId = (case upd_managerId u of None \<Rightarrow> managerId e | Some v \<Rightarrow> v)\<rparr>"

datatype action =
    SET_EMPLOYEES "employee list"
  | SET_LOADING bool
  | SET_ERROR "string option"
  | UPDATE_EMPLOYEE int employee_updates
  | SET_SEARCH_TERM string
  | SET_SELECTED_TEAM string
  | OTHER_ACTION

fun employeeReducer :: "app_state \<Rightarrow> action \<Rightarrow> app_state" where
  "employeeReducer st (SET_EMPLOYEES payload) = st\<lparr>employees := payload, loading := False\<rparr>"
| "employeeReducer st (SET_LOADING payload) = st\<lparr>loading := payload\<rparr>"
| "employeeReducer st (SET_ERROR payload) = st\<lparr>error := payload, loading := False\<rparr>"
| "employeeReducer st (UPDATE_EMPLOYEE target updates) =
     st\<lparr>employees :=
          map (\<lambda>e. if emp_id e = target then spread e updates else e) (employees st)\<rparr>"
| "employeeReducer st (SET_SEARCH_TERM payload) = st\<lparr>searchTerm := payload\<rparr>"
| "employeeReducer st (SET_SELECTED_TEAM payload) = st\<lparr>selectedTeam := payload\<rparr>"
| "employeeReducer st OTHER_ACTION = st"

text \<open>
  \<^verbatim>\<open>updateEmployeeManager(employeeId, newManagerId)\<close> awaits the \<^verbatim>\<open>PATCH\<close> request
  and the parsing of its response; either may throw, which the function logs and throws
  again before any dispatch. What the network does is an input of the model. When
  nothing is thrown the function dispatches \<^verbatim>\<open>UPDATE_EMPLOYEE\<close> with
  \<^verbatim>\<open>updates: { managerId: newManagerId }\<close>, whatever the response says.
\<close>

datatype fetch_outcome = Responded | Threw string

definition managerUpdate :: "int option \<Rightarrow> employee_updates" where
  "managerUpdate newManagerId =
     \<lparr>upd_id = None, upd_name = None, upd_designation = None, upd_team = None,
      upd_managerId = Some newManagerId\<rparr>"

definition updateEmployeeManager ::
  "app_state \<Rightarrow> int \<Rightarrow> int option \<Rightarrow> fetch_outcome \<Rightarrow> string + app_state" where
  "updateEmployeeManager st employeeId newManagerId net =
     (case net of
        Threw msg \<Rightarrow> Inl msg
      | Responded \<Rightarrow>
          Inr (employeeReducer st (UPDATE_EMPLOYEE employeeId (managerUpdate newManagerId))))"

section \<open>Dropping a card\<close>

text \<open>
  \<^verbatim>\<open>handleDragEnd(event)\<close> of the chart: \<open>over\<close> is \<open>None\<close> when the card was
  dropped on nothing. The handler shows an \<^verbatim>\<open>alert\<close> or stays silent; it returns
  what it showed and the state of the context afterwards. It does not return when the
  search for the reports does not (\<open>None\<close>). \<^verbatim>\<open>setActiveId(null)\<close> resets the card
  being dragged, which is local to the chart and not part of the context.
\<close>

datatype notice = Silent | Alert string

definition handleDragEnd ::
  "app_state \<Rightarrow> int \<Rightarrow> int option \<Rightarrow> fetch_outcome \<Rightarrow> (notice \<times> app_state) option" where
  "handleDragEnd st activeId over net =
     (case over of
        None \<Rightarrow> Some (Silent, st)
      | Some overId \<Rightarrow>
          if activeId = overId then Some (Silent, st)
          else
            (case wouldCreateCircularReference (employees st) activeId overId of
               None \<Rightarrow> None
             | Some True \<Rightarrow>
                 Some (Alert ''Cannot create circular reporting structure!'', st)
             | Some False \<Rightarrow>
                 (case updateEmployeeManager st activeId (Some overId) net of
                    Inl err \<Rightarrow>
                      Some (Alert ''Failed to update employee manager. Please try again.'', st)
                  | Inr st' \<Rightarrow> Some (Silent, st'))))"

section \<open>The parent relation and the levels below an employee\<close>

text \<open>
  The parent relation of a collection, restricted to the records whose manager is the
  identifier of a record of the collection: the pairs (employee, manager).
\<close>

definition ids :: "employee list \<Rightarrow> int set" where
  "ids r = emp_id ` set r"

definition parentRel :: "employee list \<Rightarrow> (int \<times> int) set" where
  "parentRel r =
     {(c, m). m \<in> ids r \<and> (\<exists>e \<in> set r. emp_id e = c \<and> managerId e = Some m)}"

text \<open>
  The breadth-first enumeration in the words of the specification: the direct reports
  of the identifiers of a level, in order, are the next level; \<open>levelIds r q n\<close> is the
  identifiers of the \<open>n\<close>-th level below the identifiers \<open>q\<close>, and
  \<open>levelOrder r q n\<close> the records of the first \<open>n\<close> levels below \<open>q\<close>, level by level.
\<close>

definition reportsOf :: "employee list \<Rightarrow> int list \<Rightarrow> employee list" where
  "reportsOf r q = concat (map (directReports r) q)"

fun levelIds :: "employee list \<Rightarrow> int list \<Rightarrow> nat \<Rightarrow> int list" where
  "levelIds r q 0 = q"
| "levelIds r q (Suc n) = levelIds r (map emp_id (reportsOf r q)) n"

fun levelOrder :: "employee list \<Rightarrow> int list \<Rightarrow> nat \<Rightarrow> employee list" where
  "levelOrder r q 0 = []"
| "levelOrder r q (Suc n) = reportsOf r q @ levelOrder r (map emp_id (reportsOf r q)) n"

section \<open>Example data\<close>

text \<open>The five employees of the unit tests of the helpers (\<^verbatim>\<open>mockEmployees\<close>).\<close>

definition mockEmployees :: "employee list" where
  "mockEmployees =
     [\<lparr>emp_id = 1, name = ''CEO'', designation = ''Chief Executive Officer'',
        team = ''Executive'', managerId = None\<rparr>,
      \<lparr>emp_id = 2, name = ''CTO'', designation = ''Chief Technology Officer'',
        team = ''Technology'', managerId = Some 1\<rparr>,
      \<lparr>emp_id = 3, name = ''CFO'', designation = ''Chief Financial Officer'',
        team = ''Finance'', managerId = Some 1\<rparr>,
      \<lparr>emp_id = 4, name = ''Dev Lead'', designation = ''Development Lead'',
        team = ''Technology'', managerId = Some 2\<rparr>,
      \<lparr>emp_id = 5, name = ''Senior Dev'', designation = ''Senior Developer'',
        team = ''Technology'', managerId = Some 4\<rparr>]"

text \<open>The context holding these employees, with nothing loading and no filter set.\<close>

definition mockState :: app_state where
  "mockState = \<lparr>employees = mockEmployees, loading = False, error = None,
                 searchTerm = [], selectedTeam = []\<rparr>"

text \<open>
  Collections outside the invariants of the record store: two records with the same
  identifier above a third, two employees that manage each other, two roots with the same
  identifier; and a collection with an orphan, whose manager is no record.
\<close>

definition twinReports :: "employee list" where
  "twinReports =
     [\<lparr>emp_id = 2, name = ''A'', designation = ''Lead'', team = ''T'', managerId = Some 1\<rparr>,
      \<lparr>emp_id = 2, name = ''B'', designation = ''Lead'', team = ''T'', managerId = Some 1\<rparr>,
      \<lparr>emp_id = 3, name = ''C'', designation = ''Dev'', team = ''T'', managerId = Some 2\<rparr>]"

definition loopPair :: "employee list" where
  "loopPair =
     [\<lparr>emp_id = 1, name = ''A'', designation = ''Lead'', team = ''T'', managerId = Some 2\<rparr>,
      \<lparr>emp_id = 2, name = ''B'', designation = ''Lead'', team = ''T'', managerId = Some 1\<rparr>]"

definition twinRoots :: "employee list" where
  "twinRoots =
     [\<lparr>emp_id = 1, name = ''A'', designation = ''Lead'', team = ''T'', managerId = None\<rparr>,
      \<lparr>emp_id = 1, name = ''B'', designation = ''Lead'', team = ''T'', managerId = None\<rparr>]"

definition orphanPair :: "employee list" where
  "orphanPair =
     [\<lparr>emp_id = 1, name = ''A'', designation = ''Lead'', team = ''T'', managerId = None\<rparr>,
      \<lparr>emp_id = 7, name = ''B'', designation = ''Dev'', team = ''T'', managerId = Some 99\<rparr>]"

section \<open>Notions used in the proofs\<close>

text \<open>
  A record is placed among the roots when it names no manager or a manager outside the
  set \<open>D\<close> of keys of the map.
\<close>

definition isRoot :: "int set \<Rightarrow> employee \<Rightarrow> bool" where
  "isRoot D e = (case managerId e of None \<Rightarrow> True | Some m \<Rightarrow> m \<notin> D)"

text \<open>The store that \<open>buildTree\<close> leaves behind.\<close>

definition storeOf :: "employee list \<Rightarrow> store" where
  "storeOf r = snd (buildTree r)"

text \<open>Some amount of fuel is enough to read the forest below the references \<open>todo\<close>.\<close>

definition reads :: "store \<Rightarrow> int list \<Rightarrow> bool" where
  "reads h todo \<longleftrightarrow> (\<exists>n out. forestNodes h n todo = Some out)"

text \<open>How often the manager of \<open>e\<close> occurs in a list of identifiers.\<close>

definition viaManager :: "employee \<Rightarrow> int list \<Rightarrow> nat" where
  "viaManager e xs = (case managerId e of None \<Rightarrow> 0 | Some p \<Rightarrow> count_list xs p)"

section \<open>The loop of the search for the reports\<close>

lemma loop_Nil: "getAllReports_loop r [] rep = Some rep"
  by (simp add: getAllReports_loop.simps)

lemma loop_Cons:
  "getAllReports_loop r (x # q) rep =
     getAllReports_loop r (q @ map emp_id (directReports r x)) (rep @ directReports r x)"
  by (subst getAllReports_loop.simps) simp

lemma reportsOf_Nil: "reportsOf r [] = []"
  by (simp add: reportsOf_def)

lemma reportsOf_Cons: "reportsOf r (x # q) = directReports r x @ reportsOf r q"
  by (simp add: reportsOf_def)

lemma reportsOf_append: "reportsOf r (q @ q') = reportsOf r q @ reportsOf r q'"
  by (simp add: reportsOf_def)

text \<open>The loop works through the queue one level at a time.\<close>

lemma loop_level:
  "getAllReports_loop r (q @ q') rep =
     getAllReports_loop r (q' @ map emp_id (reportsOf r q)) (rep @ reportsOf r q)"
proof (induction q arbitrary: q' rep)
  case Nil
  show ?case by (simp add: reportsOf_Nil)
next
  case (Cons x q)
  have "getAllReports_loop r ((x # q) @ q') rep =
        getAllReports_loop r (q @ (q' @ map emp_id (directReports r x))) (rep @ directReports r x)"
    by (simp add: loop_Cons)
  also have "\<dots> = getAllReports_loop r ((q' @ map emp_id (directReports r x)) @ map emp_id (reportsOf r q))
                    ((rep @ directReports r x) @ reportsOf r q)"
    by (rule Cons.IH)
  finally show ?case by (simp add: reportsOf_Cons)
qed

lemma loop_levels:
  "levelIds r q n = [] \<Longrightarrow> getAllReports_loop r q rep = Some (rep @ levelOrder r q n)"
proof (induction n arbitrary: q rep)
  case 0
  then show ?case by (simp add: loop_Nil)
next
  case (Suc n)
  have "getAllReports_loop r q rep =
        getAllReports_loop r (map emp_id (reportsOf r q)) (rep @ reportsOf r q)"
    using loop_level [of r q "[]" rep] by simp
  also have "\<dots> = Some ((rep @ reportsOf r q) @ levelOrder r (map emp_id (reportsOf r q)) n)"
    using Suc.prems by (intro Suc.IH) simp
  finally show ?case by simp
qed

lemma levelIds_append: "levelIds r (q @ q') n = levelIds r q n @ levelIds r q' n"
  by (induction n arbitrary: q q') (simp_all add: reportsOf_append)

lemma levelIds_Nil: "levelIds r [] n = []"
  by (induction n) (simp_all add: reportsOf_Nil)

lemma levelIds_add: "levelIds r q (n + k) = levelIds r (levelIds r q n) k"
  by (induction n arbitrary: q) simp_all

lemma levelIds_empty_mono: "levelIds r q n = [] \<Longrightarrow> n \<le> m \<Longrightarrow> levelIds r q m = []"
  using levelIds_add [of r q n "m - n"] by (simp add: levelIds_Nil)

lemma levelOrder_Nil: "levelOrder r [] n = []"
  by (induction n) (simp_all add: reportsOf_Nil)

lemma levelOrder_stable:
  "levelIds r q n = [] \<Longrightarrow> levelOrder r q (n + k) = levelOrder r q n"
proof (induction n arbitrary: q)
  case 0
  then show ?case by (simp add: levelOrder_Nil)
next
  case (Suc n)
  then show ?case by simp
qed

text \<open>When the loop returns, some level is empty.\<close>

lemma loop_returns_level:
  assumes "getAllReports_loop r q rep = Some out"
  shows "\<exists>n. levelIds r q n = []"
proof (rule getAllReports_loop.raw_induct
    [where P = "\<lambda>r q rep out. \<exists>n. levelIds r q n = []", OF _ assms])
  fix loop :: "employee list \<Rightarrow> int list \<Rightarrow> employee list \<Rightarrow> employee list option"
  fix r q rep out
  assume IH: "\<And>r q rep out. loop r q rep = Some out \<Longrightarrow> \<exists>n. levelIds r q n = []"
  assume step: "(case q of [] \<Rightarrow> Some rep
      | currentId # rest \<Rightarrow>
          loop r (rest @ map emp_id (directReports r currentId))
            (rep @ directReports r currentId)) = Some out"
  show "\<exists>n. levelIds r q n = []"
  proof (cases q)
    case Nil
    then have "levelIds r q 0 = []" by simp
    then show ?thesis by blast
  next
    case (Cons x rest)
    with step have "loop r (rest @ map emp_id (directReports r x)) (rep @ directReports r x) = Some out"
      by simp
    then obtain n where n: "levelIds r (rest @ map emp_id (directReports r x)) n = []"
      using IH by blast
    then have a: "levelIds r rest n = []" and b: "levelIds r (map emp_id (directReports r x)) n = []"
      by (simp_all add: levelIds_append)
    have "levelIds r [x] (Suc n) = []"
      using b by (simp add: reportsOf_def)
    moreover have "levelIds r rest (Suc n) = []"
      using a by (rule levelIds_empty_mono) simp
    ultimately have "levelIds r ([x] @ rest) (Suc n) = []"
      unfolding levelIds_append by simp
    then have "levelIds r q (Suc n) = []" using Cons by simp
    then show ?thesis by blast
  qed
qed

lemma finite_parentRel: "finite (parentRel r)"
proof -
  have "parentRel r \<subseteq> ids r \<times> ids r"
    by (auto simp: parentRel_def ids_def)
  moreover have "finite (ids r \<times> ids r)"
    by (simp add: ids_def)
  ultimately show ?thesis by (rule finite_subset)
qed

lemma levels_end_list:
  "(\<And>x. x \<in> set q \<Longrightarrow> \<exists>n. levelIds r [x] n = []) \<Longrightarrow> \<exists>n. levelIds r q n = []"
proof (induction q)
  case Nil
  have "levelIds r [] 0 = []" by simp
  then show ?case by blast
next
  case (Cons x q)
  obtain n where n: "levelIds r [x] n = []"
    using Cons.prems [of x] by auto
  obtain m where m: "levelIds r q m = []"
    using Cons.IH Cons.prems by auto
  have "levelIds r [x] (max n m) = []" "levelIds r q (max n m) = []"
    using n m by (auto intro: levelIds_empty_mono)
  then have "levelIds r ([x] @ q) (max n m) = []"
    by (simp only: levelIds_append append_Nil)
  then show ?case by auto
qed

lemma directReports_parentRel:
  "x \<in> ids r \<Longrightarrow> c \<in> set (map emp_id (directReports r x)) \<Longrightarrow> (c, x) \<in> parentRel r"
  by (auto simp: parentRel_def directReports_def)

lemma directReports_ids:
  "c \<in> set (map emp_id (directReports r x)) \<Longrightarrow> c \<in> ids r"
  by (auto simp: ids_def directReports_def)

lemma levelIds_single_Suc:
  "levelIds r [x] (Suc n) = levelIds r (map emp_id (directReports r x)) n"
  by (simp add: reportsOf_def)

lemma levels_end_known:
  assumes "acyclic (parentRel r)"
  shows "x \<in> ids r \<Longrightarrow> \<exists>n. levelIds r [x] n = []"
proof -
  have wf: "wf (parentRel r)"
    using finite_parentRel assms by (rule finite_acyclic_wf)
  show "x \<in> ids r \<Longrightarrow> \<exists>n. levelIds r [x] n = []"
    using wf
  proof (induction x rule: wf_induct_rule)
    case (less x)
    have "\<exists>n. levelIds r (map emp_id (directReports r x)) n = []"
    proof (rule levels_end_list)
      fix c assume c: "c \<in> set (map emp_id (directReports r x))"
      show "\<exists>n. levelIds r [c] n = []"
        using less.IH [of c] directReports_parentRel [OF less.prems c] directReports_ids [OF c]
        by blast
    qed
    then obtain n where "levelIds r [x] (Suc n) = []"
      unfolding levelIds_single_Suc by blast
    then show ?case by blast
  qed
qed

lemma levels_end:
  assumes "acyclic (parentRel r)"
  shows "\<exists>n. levelIds r [x] n = []"
proof -
  have "\<exists>n. levelIds r (map emp_id (directReports r x)) n = []"
  proof (rule levels_end_list)
    fix c assume c: "c \<in> set (map emp_id (directReports r x))"
    show "\<exists>n. levelIds r [c] n = []"
      using levels_end_known [OF assms directReports_ids [OF c]] .
  qed
  then obtain n where "levelIds r [x] (Suc n) = []"
    unfolding levelIds_single_Suc by blast
  then show ?thesis by blast
qed

text \<open>The parent relation of the example is acyclic: every manager has the smaller identifier.\<close>

lemma acyclic_mock: "acyclic (parentRel mockEmployees)"
proof (rule acyclicI_order [where f = "\<lambda>i. i"])
  fix a b assume "(a, b) \<in> parentRel mockEmployees"
  then show "b < a"
    by (auto simp: parentRel_def mockEmployees_def)
qed

text \<open>
  Claim C10. When the parent relation of the collection, restricted to the records whose
  manager is a record of the collection, is acyclic, \<open>getAllReports\<close> returns for
  every starting identifier, and so does \<open>wouldCreateCircularReference\<close>, which
  calls it.
\<close>

theorem getAllReports_terminates:
  assumes "acyclic (parentRel r)"
  shows "(\<exists>reports. getAllReports r x = Some reports) \<and>
         (\<exists>b. wouldCreateCircularReference r x y = Some b)"
proof -
  obtain n where "levelIds r [x] n = []"
    using levels_end [OF assms] by blast
  then have "getAllReports r x = Some (levelOrder r [x] n)"
    unfolding getAllReports_def using loop_levels [of r "[x]" n "[]"] by simp
  then show ?thesis
    by (auto simp: wouldCreateCircularReference_def)
qed

theorem getAllReports_terminates_witness:
  "acyclic (parentRel mockEmployees) \<and>
   (\<exists>reports. getAllReports mockEmployees 1 = Some reports) \<and>
   (\<exists>b. wouldCreateCircularReference mockEmployees 1 5 = Some b)"
  using getAllReports_terminates [OF acyclic_mock, of 1 5] acyclic_mock by simp

section \<open>Levels of a collection with distinct identifiers\<close>

lemma set_reportsOf:
  "set (reportsOf r q) = {e \<in> set r. \<exists>y \<in> set q. managerId e = Some y}"
  by (auto simp: reportsOf_def directReports_def)

lemma levelIds_Suc_last:
  "levelIds r q (Suc n) = map emp_id (reportsOf r (levelIds r q n))"
  using levelIds_add [of r q n 1] by simp

lemma levelIds_set_mono:
  "set q \<subseteq> set q' \<Longrightarrow> set (levelIds r q n) \<subseteq> set (levelIds r q' n)"
proof (induction n arbitrary: q q')
  case 0
  then show ?case by simp
next
  case (Suc n)
  have "set (map emp_id (reportsOf r q)) \<subseteq> set (map emp_id (reportsOf r q'))"
    using Suc.prems by (auto simp: set_reportsOf)
  then show ?case
    using Suc.IH by simp
qed

text \<open>A starting identifier that occurs at a later level occurs at infinitely many levels.\<close>

lemma start_recurs:
  assumes "x \<in> set (levelIds r [x] k)"
  shows "x \<in> set (levelIds r [x] (t * k))"
proof (induction t)
  case 0
  show ?case by simp
next
  case (Suc t)
  have "set [x] \<subseteq> set (levelIds r [x] (t * k))"
    using Suc.IH by simp
  then have "set (levelIds r [x] k) \<subseteq> set (levelIds r (levelIds r [x] (t * k)) k)"
    by (rule levelIds_set_mono)
  then have "x \<in> set (levelIds r [x] (t * k + k))"
    using assms by (auto simp: levelIds_add)
  then show ?case by (simp add: add.commute)
qed

lemma start_not_below:
  assumes "levelIds r [x] n = []" and "0 < k"
  shows "x \<notin> set (levelIds r [x] k)"
proof
  assume "x \<in> set (levelIds r [x] k)"
  then have "x \<in> set (levelIds r [x] (n * k))"
    by (rule start_recurs)
  moreover have "levelIds r [x] (n * k) = []"
    using assms levelIds_empty_mono [of r "[x]" n "n * k"] by simp
  ultimately show False by simp
qed

lemma same_id_same_record:
  "distinct (map emp_id r) \<Longrightarrow> e \<in> set r \<Longrightarrow> e' \<in> set r \<Longrightarrow> emp_id e = emp_id e' \<Longrightarrow> e = e'"
  by (auto simp: distinct_map dest: inj_onD)

lemma distinct_reportsOf:
  assumes "distinct (map emp_id r)"
  shows "distinct q \<Longrightarrow> distinct (map emp_id (reportsOf r q))"
proof (induction q)
  case Nil
  show ?case by (simp add: reportsOf_Nil)
next
  case (Cons y q)
  have d1: "distinct (map emp_id (directReports r y))"
    unfolding directReports_def using assms by (rule distinct_map_filter)
  have d2: "distinct (map emp_id (reportsOf r q))"
    using Cons by simp
  have "emp_id ` set (directReports r y) \<inter> emp_id ` set (reportsOf r q) = {}"
  proof (rule ccontr)
    assume "\<not> ?thesis"
    then obtain e e' where e: "e \<in> set (directReports r y)" and e': "e' \<in> set (reportsOf r q)"
      and eq: "emp_id e = emp_id e'"
      by auto
    from e have er: "e \<in> set r" and my: "managerId e = Some y"
      by (auto simp: directReports_def)
    from e' obtain y' where er': "e' \<in> set r" and y': "y' \<in> set q" and my': "managerId e' = Some y'"
      by (auto simp: set_reportsOf)
    have "e = e'" using same_id_same_record [OF assms er er' eq] .
    with my my' have "y = y'" by simp
    with y' Cons.prems show False by simp
  qed
  with d1 d2 show ?case
    by (simp add: reportsOf_Cons)
qed

lemma levels_disjoint:
  assumes d: "distinct (map emp_id r)" and fin: "levelIds r [x] n = []"
  shows "distinct (levelIds r [x] b) \<and> (\<forall>a<b. set (levelIds r [x] a) \<inter> set (levelIds r [x] b) = {})"
proof (induction b rule: less_induct)
  case (less b)
  show ?case
  proof (cases b)
    case 0
    then show ?thesis by simp
  next
    case (Suc b')
    have IHb: "distinct (levelIds r [x] b')"
      using less.IH [of b'] Suc by simp
    have dist: "distinct (levelIds r [x] (Suc b'))"
      unfolding levelIds_Suc_last using d IHb by (rule distinct_reportsOf)
    have disj: "set (levelIds r [x] a) \<inter> set (levelIds r [x] (Suc b')) = {}" if "a < Suc b'" for a
    proof (cases a)
      case 0
      have "x \<notin> set (levelIds r [x] (Suc b'))"
        using fin by (rule start_not_below) simp
      with 0 show ?thesis by simp
    next
      case (Suc a')
      show ?thesis
      proof (rule ccontr)
        assume "\<not> ?thesis"
        then obtain c where ca: "c \<in> set (levelIds r [x] (Suc a'))" and cb: "c \<in> set (levelIds r [x] (Suc b'))"
          using Suc by auto
        from ca obtain e y where e: "e \<in> set r" "emp_id e = c" "y \<in> set (levelIds r [x] a')" "managerId e = Some y"
          unfolding levelIds_Suc_last by (auto simp: set_reportsOf)
        from cb obtain e' y' where e': "e' \<in> set r" "emp_id e' = c" "y' \<in> set (levelIds r [x] b')" "managerId e' = Some y'"
          unfolding levelIds_Suc_last by (auto simp: set_reportsOf)
        have "e = e'" using same_id_same_record [OF d e(1) e'(1)] e(2) e'(2) by simp
        with e(4) e'(4) have "y = y'" by simp
        moreover have "set (levelIds r [x] a') \<inter> set (levelIds r [x] b') = {}"
          using less.IH [of b'] \<open>b = Suc b'\<close> that Suc by simp
        ultimately show False using e(3) e'(3) by auto
      qed
    qed
    show ?thesis using dist disj Suc by simp
  qed
qed

lemma levelOrder_Suc_last:
  "levelOrder r q (Suc n) = levelOrder r q n @ reportsOf r (levelIds r q n)"
proof (induction n arbitrary: q)
  case 0
  show ?case by simp
next
  case (Suc n)
  have "levelOrder r q (Suc (Suc n)) =
        reportsOf r q @ levelOrder r (map emp_id (reportsOf r q)) (Suc n)"
    by simp
  also have "\<dots> = reportsOf r q @ levelOrder r (map emp_id (reportsOf r q)) n @
                   reportsOf r (levelIds r (map emp_id (reportsOf r q)) n)"
    by (simp only: Suc.IH)
  finally show ?case by simp
qed

lemma levelOrder_ids:
  "set (map emp_id (levelOrder r q n)) = (\<Union>k \<in> {1..n}. set (levelIds r q k))"
proof (induction n)
  case 0
  show ?case by simp
next
  case (Suc n)
  have "{1..Suc n} = insert (Suc n) {1..n}" by auto
  then have "(\<Union>k \<in> {1..Suc n}. set (levelIds r q k)) =
             (\<Union>k \<in> {1..n}. set (levelIds r q k)) \<union> set (levelIds r q (Suc n))"
    by (simp only: UN_insert Un_commute)
  moreover have "set (map emp_id (levelOrder r q (Suc n))) =
                 set (map emp_id (levelOrder r q n)) \<union> set (levelIds r q (Suc n))"
    by (simp only: levelOrder_Suc_last map_append set_append levelIds_Suc_last [symmetric])
  ultimately show ?case
    using Suc.IH by (simp only:)
qed

lemma distinct_levelOrder_ids:
  assumes d: "distinct (map emp_id r)" and fin: "levelIds r [x] n = []"
  shows "distinct (map emp_id (levelOrder r [x] m))"
proof (induction m)
  case 0
  show ?case by simp
next
  case (Suc m)
  have new: "distinct (levelIds r [x] (Suc m))"
    using levels_disjoint [OF d fin, of "Suc m"] by simp
  have "set (map emp_id (levelOrder r [x] m)) \<inter> set (levelIds r [x] (Suc m)) = {}"
  proof -
    have "set (levelIds r [x] k) \<inter> set (levelIds r [x] (Suc m)) = {}" if "k \<in> {1..m}" for k
      using levels_disjoint [OF d fin, of "Suc m"] that by simp
    then show ?thesis
      unfolding levelOrder_ids by blast
  qed
  with Suc.IH new show ?case
    by (simp only: levelOrder_Suc_last map_append levelIds_Suc_last [symmetric] distinct_append)
qed

lemma getAllReports_levels:
  "getAllReports r x = Some reports \<Longrightarrow> \<exists>n. levelIds r [x] n = [] \<and> reports = levelOrder r [x] n"
proof -
  assume a: "getAllReports r x = Some reports"
  then obtain n where n: "levelIds r [x] n = []"
    unfolding getAllReports_def using loop_returns_level by blast
  then have "getAllReports r x = Some (levelOrder r [x] n)"
    unfolding getAllReports_def using loop_levels [of r "[x]" n "[]"] by simp
  with a n show ?thesis by auto
qed

text \<open>
  Without the hypothesis of an acyclic parent relation the search need not return: for
  two employees that manage each other every level holds one identifier.
\<close>

lemma levelIds_loopPair:
  "q = [1] \<or> q = [2] \<Longrightarrow> levelIds loopPair q n \<noteq> []"
proof (induction n arbitrary: q)
  case 0
  then show ?case by auto
next
  case (Suc n)
  have "map emp_id (reportsOf loopPair q) = [1] \<or> map emp_id (reportsOf loopPair q) = [2]"
    using Suc.prems by (auto simp: reportsOf_def directReports_def loopPair_def)
  then show ?case
    using Suc.IH by simp
qed

lemma getAllReports_loopPair: "getAllReports loopPair 1 = None"
proof (cases "getAllReports loopPair 1")
  case None
  then show ?thesis .
next
  case (Some reports)
  then obtain n where "levelIds loopPair [1] n = []"
    using getAllReports_levels by blast
  then show ?thesis
    using levelIds_loopPair [of "[1]" n] by simp
qed

section \<open>The reports of the example\<close>

lemma reports_mock_1: "getAllReports mockEmployees 1 =
  Some [mockEmployees ! 1, mockEmployees ! 2, mockEmployees ! 3, mockEmployees ! 4]"
  by (simp add: getAllReports_def loop_Nil loop_Cons mockEmployees_def directReports_def)

lemma reports_mock_5: "getAllReports mockEmployees 5 = Some []"
  by (simp add: getAllReports_def loop_Nil loop_Cons mockEmployees_def directReports_def)

section \<open>The integrity guard\<close>

text \<open>
  The claim C1 as it is written fails: it holds of every collection that the guard
  returns true or false, and for two employees that manage each other the guard does
  not return, although the second is a report of the first.
\<close>

theorem wouldCreateCircularReference_counterexample:
  "emp_id (loopPair ! 1) = 2 \<and> managerId (loopPair ! 1) = Some 1 \<and>
   getAllReports loopPair 1 = None \<and>
   wouldCreateCircularReference loopPair 1 2 = None"
  by (simp add: wouldCreateCircularReference_def getAllReports_loopPair) (simp add: loopPair_def)

text \<open>
  Claim C1, amended. \<open>wouldCreateCircularReference r x y\<close> returns true when
  \<open>x = y\<close>. Otherwise, when \<open>getAllReports r x\<close> returns, it returns true if
  \<open>y\<close> is the identifier of one of the reports and false if it is not; and when
  \<open>getAllReports r x\<close> does not return, it does not return.
\<close>

theorem wouldCreateCircularReference_when_returns:
  "(x = y \<longrightarrow> wouldCreateCircularReference r x y = Some True) \<and>
   (x \<noteq> y \<and> getAllReports r x = Some reports \<longrightarrow>
      wouldCreateCircularReference r x y = Some (y \<in> emp_id ` set reports)) \<and>
   (x \<noteq> y \<and> getAllReports r x = None \<longrightarrow>
      wouldCreateCircularReference r x y = None)"
  by (auto simp: wouldCreateCircularReference_def list_ex_iff)

theorem wouldCreateCircularReference_when_returns_witness:
  "wouldCreateCircularReference mockEmployees 2 2 = Some True \<and>
   getAllReports mockEmployees 1 =
     Some [mockEmployees ! 1, mockEmployees ! 2, mockEmployees ! 3, mockEmployees ! 4] \<and>
   wouldCreateCircularReference mockEmployees 1 5 = Some True \<and>
   getAllReports mockEmployees 5 = Some [] \<and>
   wouldCreateCircularReference mockEmployees 5 2 = Some False \<and>
   getAllReports loopPair 2 = None \<and>
   wouldCreateCircularReference loopPair 2 1 = None"
proof -
  have n: "getAllReports loopPair 2 = None"
  proof (cases "getAllReports loopPair 2")
    case None
    then show ?thesis .
  next
    case (Some reports)
    then obtain n where "levelIds loopPair [2] n = []"
      using getAllReports_levels by blast
    then show ?thesis
      using levelIds_loopPair [of "[2]" n] by simp
  qed
  show ?thesis
    using wouldCreateCircularReference_when_returns [of 2 2 mockEmployees]
      wouldCreateCircularReference_when_returns
        [of 1 5 mockEmployees
          "[mockEmployees ! 1, mockEmployees ! 2, mockEmployees ! 3, mockEmployees ! 4]"]
      wouldCreateCircularReference_when_returns [of 5 2 mockEmployees "[]"]
      wouldCreateCircularReference_when_returns [of 2 1 loopPair]
      reports_mock_1 reports_mock_5 n
    by simp (simp add: mockEmployees_def)
qed

section \<open>Breadth-first order\<close>

text \<open>
  The claim C3 as it is written fails: two records with the identifier 2 report to 1, so
  the identifier 2 is taken from the queue twice and the record that reports to 2 is
  listed twice.
\<close>

theorem getAllReports_twins_counterexample:
  "getAllReports twinReports 1 =
     Some [twinReports ! 0, twinReports ! 1, twinReports ! 2, twinReports ! 2] \<and>
   \<not> distinct [twinReports ! 0, twinReports ! 1, twinReports ! 2, twinReports ! 2]"
  by (simp add: getAllReports_def loop_Nil loop_Cons twinReports_def directReports_def)

text \<open>
  Claim C3, amended. \<open>getAllReports r x\<close> lists the reports level by level: it
  returns as soon as some level below \<open>x\<close> is empty, and what it returns is the
  direct reports of \<open>x\<close>, then their direct reports, and so on down to that level.
  When the identifiers of the collection are distinct, no record is listed twice.
\<close>

theorem getAllReports_breadth_first:
  "(levelIds r [x] n = [] \<longrightarrow> getAllReports r x = Some (levelOrder r [x] n)) \<and>
   (getAllReports r x = Some reports \<longrightarrow>
      (\<exists>k. levelIds r [x] k = [] \<and> reports = levelOrder r [x] k) \<and>
      (distinct (map emp_id r) \<longrightarrow> distinct reports))"
proof (intro conjI impI)
  assume "levelIds r [x] n = []"
  then show "getAllReports r x = Some (levelOrder r [x] n)"
    unfolding getAllReports_def using loop_levels [of r "[x]" n "[]"] by simp
next
  assume "getAllReports r x = Some reports"
  then show "\<exists>k. levelIds r [x] k = [] \<and> reports = levelOrder r [x] k"
    by (rule getAllReports_levels)
next
  assume a: "getAllReports r x = Some reports" and d: "distinct (map emp_id r)"
  from a obtain k where k: "levelIds r [x] k = []" "reports = levelOrder r [x] k"
    using getAllReports_levels by blast
  have "distinct (map emp_id reports)"
    unfolding k(2) using d k(1) by (rule distinct_levelOrder_ids)
  then show "distinct reports"
    by (simp add: distinct_map)
qed

theorem getAllReports_breadth_first_witness:
  "levelIds mockEmployees [2] 3 = [] \<and>
   getAllReports mockEmployees 2 = Some [mockEmployees ! 3, mockEmployees ! 4] \<and>
   levelOrder mockEmployees [2] 3 = [mockEmployees ! 3, mockEmployees ! 4] \<and>
   distinct (map emp_id mockEmployees) \<and>
   distinct [mockEmployees ! 3, mockEmployees ! 4]"
proof -
  have l: "levelIds mockEmployees [2] 3 = []"
    by (simp add: numeral_3_eq_3 reportsOf_def directReports_def mockEmployees_def)
  have o: "levelOrder mockEmployees [2] 3 = [mockEmployees ! 3, mockEmployees ! 4]"
    by (simp add: numeral_3_eq_3 reportsOf_def directReports_def mockEmployees_def)
  have d: "distinct (map emp_id mockEmployees)"
    by (simp add: mockEmployees_def)
  show ?thesis
    using getAllReports_breadth_first [of mockEmployees 2 3 "levelOrder mockEmployees [2] 3"] l o d
    by simp
qed

section \<open>What the two passes build\<close>

lemma firstPass_fold:
  "foldl (\<lambda>m e. m(emp_id e \<mapsto> \<lparr>emp = e, children = []\<rparr>)) m0 emps i =
     (if i \<in> ids emps
      then Some \<lparr>emp = last (filter (\<lambda>e. emp_id e = i) emps), children = []\<rparr>
      else m0 i)"
proof (induction emps arbitrary: m0)
  case Nil
  show ?case by (simp add: ids_def)
next
  case (Cons e emps)
  show ?case
    unfolding foldl_Cons Cons.IH
    by (auto simp: ids_def filter_empty_conv)
qed

lemma firstPass_at:
  "firstPass emps i =
     (if i \<in> ids emps
      then Some \<lparr>emp = last (filter (\<lambda>e. emp_id e = i) emps), children = []\<rparr>
      else None)"
  unfolding firstPass_def firstPass_fold by simp

lemma dom_firstPass: "dom (firstPass emps) = ids emps"
  by (auto simp: firstPass_at split: if_splits)

lemma directReports_Cons:
  "directReports (e # es) i = (if managerId e = Some i then e # directReports es i else directReports es i)"
  by (simp add: directReports_def)

lemma secondPass_fold:
  "foldl secondPass_step (rts, m) es =
     (rts @ map emp_id (filter (isRoot (dom m)) es),
      \<lambda>i. map_option (\<lambda>nd. nd\<lparr>children := children nd @ map emp_id (directReports es i)\<rparr>) (m i))"
proof (induction es arbitrary: rts m)
  case Nil
  show ?case by (simp add: directReports_def fun_eq_iff option.map_ident)
next
  case (Cons e es)
  show ?case
  proof (cases "managerId e")
    case None
    then have step: "secondPass_step (rts, m) e = (rts @ [emp_id e], m)"
      by (simp add: secondPass_step_def)
    have "isRoot (dom m) e" using None by (simp add: isRoot_def)
    then show ?thesis
      unfolding foldl_Cons step Cons.IH
      using None by (simp add: directReports_Cons)
  next
    case (Some mid)
    show ?thesis
    proof (cases "m mid")
      case None
      with Some have step: "secondPass_step (rts, m) e = (rts @ [emp_id e], m)"
        by (simp add: secondPass_step_def)
      have "isRoot (dom m) e" using None Some by (auto simp: isRoot_def)
      then show ?thesis
        unfolding foldl_Cons step Cons.IH
        using Some None by (auto simp: directReports_Cons fun_eq_iff)
    next
      case (Some manager)
      with \<open>managerId e = Some mid\<close>
      have step: "secondPass_step (rts, m) e =
          (rts, m(mid \<mapsto> manager\<lparr>children := children manager @ [emp_id e]\<rparr>))"
        by (simp add: secondPass_step_def)
      have d: "dom (m(mid \<mapsto> manager\<lparr>children := children manager @ [emp_id e]\<rparr>)) = dom m"
        using Some by auto
      have "\<not> isRoot (dom m) e"
        using Some \<open>managerId e = Some mid\<close> by (auto simp: isRoot_def)
      then show ?thesis
        unfolding foldl_Cons step Cons.IH d
        using Some \<open>managerId e = Some mid\<close>
        by (auto simp: directReports_Cons fun_eq_iff)
    qed
  qed
qed

lemma buildTree_eq:
  "buildTree r =
     (map emp_id (filter (isRoot (ids r)) r),
      \<lambda>i. if i \<in> ids r
          then Some \<lparr>emp = last (filter (\<lambda>e. emp_id e = i) r),
                     children = map emp_id (directReports r i)\<rparr>
          else None)"
proof (cases "r = []")
  case True
  then show ?thesis by (simp add: buildTree_def ids_def fun_eq_iff)
next
  case False
  then show ?thesis
    unfolding buildTree_def secondPass_fold dom_firstPass
    by (simp add: fun_eq_iff firstPass_at)
qed

lemma last_filter_unique:
  assumes "distinct (map emp_id r)" and "e \<in> set r"
  shows "last (filter (\<lambda>e'. emp_id e' = emp_id e) r) = e"
proof -
  have ne: "filter (\<lambda>e'. emp_id e' = emp_id e) r \<noteq> []"
    using assms(2) by (auto simp: filter_empty_conv)
  then have "last (filter (\<lambda>e'. emp_id e' = emp_id e) r) \<in> set (filter (\<lambda>e'. emp_id e' = emp_id e) r)"
    by (rule last_in_set)
  then have "last (filter (\<lambda>e'. emp_id e' = emp_id e) r) \<in> set r"
    and "emp_id (last (filter (\<lambda>e'. emp_id e' = emp_id e) r)) = emp_id e"
    by auto
  then show ?thesis
    using assms by (auto simp: distinct_map dest: inj_onD)
qed

section \<open>Reading the forest\<close>

text \<open>The store of a collection with distinct identifiers.\<close>

lemma storeOf_known:
  "distinct (map emp_id r) \<Longrightarrow> e \<in> set r \<Longrightarrow>
     storeOf r (emp_id e) = Some \<lparr>emp = e, children = map emp_id (directReports r (emp_id e))\<rparr>"
  using last_filter_unique [of r e] by (simp add: storeOf_def buildTree_eq ids_def)

lemma storeOf_Some:
  assumes "distinct (map emp_id r)" and "storeOf r a = Some nd"
  shows "emp nd \<in> set r \<and> emp_id (emp nd) = a \<and> children nd = map emp_id (directReports r a)"
proof -
  from assms(2) have "a \<in> ids r"
    by (auto simp: storeOf_def buildTree_eq split: if_splits)
  then obtain e where e: "e \<in> set r" "emp_id e = a"
    by (auto simp: ids_def)
  with storeOf_known [OF assms(1) e(1)] assms(2) show ?thesis by auto
qed

text \<open>The reading ends when the parent relation is acyclic.\<close>

lemma reads_Nil: "reads h []"
  unfolding reads_def by (intro exI [of _ 0]) simp

lemma reads_Cons:
  "h a = Some nd \<Longrightarrow> reads h (children nd @ todo) \<Longrightarrow> reads h (a # todo)"
proof -
  assume h: "h a = Some nd" and "reads h (children nd @ todo)"
  then obtain n out where "forestNodes h n (children nd @ todo) = Some out"
    unfolding reads_def by blast
  with h have "forestNodes h (Suc n) (a # todo) = Some (emp nd # out)"
    by simp
  then show ?thesis unfolding reads_def by blast
qed

lemma reads_append:
  "(\<And>k todo. k \<in> set ks \<Longrightarrow> reads h todo \<Longrightarrow> reads h (k # todo)) \<Longrightarrow>
   reads h todo \<Longrightarrow> reads h (ks @ todo)"
  by (induction ks) auto

lemma reads_known:
  assumes d: "distinct (map emp_id r)" and ac: "acyclic (parentRel r)"
  shows "a \<in> ids r \<Longrightarrow> reads (storeOf r) todo \<Longrightarrow> reads (storeOf r) (a # todo)"
proof -
  have wf: "wf (parentRel r)"
    using finite_parentRel ac by (rule finite_acyclic_wf)
  show "a \<in> ids r \<Longrightarrow> reads (storeOf r) todo \<Longrightarrow> reads (storeOf r) (a # todo)"
    using wf
  proof (induction a arbitrary: todo rule: wf_induct_rule)
    case (less a)
    from less.prems(1) obtain e where e: "e \<in> set r" "emp_id e = a"
      by (auto simp: ids_def)
    have st: "storeOf r a = Some \<lparr>emp = e, children = map emp_id (directReports r a)\<rparr>"
      using storeOf_known [OF d e(1)] e(2) by simp
    have "reads (storeOf r) (map emp_id (directReports r a) @ todo)"
    proof (rule reads_append)
      fix k todo'
      assume k: "k \<in> set (map emp_id (directReports r a))" and t: "reads (storeOf r) todo'"
      show "reads (storeOf r) (k # todo')"
        using less.IH [OF directReports_parentRel [OF less.prems(1) k] directReports_ids [OF k] t] .
    next
      show "reads (storeOf r) todo" by (rule less.prems(2))
    qed
    then show ?case
      using reads_Cons [of "storeOf r" a _ todo, OF st] by simp
  qed
qed

lemma roots_known: "set (fst (buildTree r)) \<subseteq> ids r"
  by (auto simp: buildTree_eq ids_def)

lemma reads_roots:
  assumes d: "distinct (map emp_id r)" and ac: "acyclic (parentRel r)"
  shows "reads (storeOf r) (fst (buildTree r))"
proof -
  have "reads (storeOf r) (fst (buildTree r) @ [])"
  proof (rule reads_append)
    fix k todo assume "k \<in> set (fst (buildTree r))" and "reads (storeOf r) todo"
    then show "reads (storeOf r) (k # todo)"
      using reads_known [OF d ac] roots_known by blast
  next
    show "reads (storeOf r) []" by (rule reads_Nil)
  qed
  then show ?thesis by simp
qed

lemma count_map_filter_distinct:
  "distinct (map f xs) \<Longrightarrow> x \<in> set xs \<Longrightarrow>
     count_list (map f (filter P xs)) (f x) = (if P x then 1 else 0)"
proof (induction xs)
  case Nil
  then show ?case by simp
next
  case (Cons z xs)
  show ?case
  proof (cases "x = z")
    case True
    have "f z \<notin> set (map f (filter P xs))"
      using Cons.prems(1) by auto
    then have "count_list (map f (filter P xs)) (f z) = 0"
      by (rule count_notin)
    with True show ?thesis by simp
  next
    case False
    with Cons.prems have "x \<in> set xs" "f z \<noteq> f x" by auto
    with Cons show ?thesis by simp
  qed
qed

lemma count_directReports:
  "distinct (map emp_id r) \<Longrightarrow> e \<in> set r \<Longrightarrow>
     count_list (map emp_id (directReports r a)) (emp_id e) = (if managerId e = Some a then 1 else 0)"
  unfolding directReports_def by (rule count_map_filter_distinct)

lemma count_roots:
  "distinct (map emp_id r) \<Longrightarrow> e \<in> set r \<Longrightarrow>
     count_list (fst (buildTree r)) (emp_id e) = (if isRoot (ids r) e then 1 else 0)"
  unfolding buildTree_eq fst_conv by (rule count_map_filter_distinct)

lemma forestNodes_records:
  assumes d: "distinct (map emp_id r)"
  shows "forestNodes (storeOf r) n todo = Some out \<Longrightarrow> set out \<subseteq> set r"
proof (induction "storeOf r" n todo arbitrary: out rule: forestNodes.induct)
  case (1 fuel)
  then show ?case by simp
next
  case (2 a todo)
  then show ?case by simp
next
  case (3 fuel a todo)
  from "3.prems" obtain nd out' where nd: "storeOf r a = Some nd"
    and out': "forestNodes (storeOf r) fuel (children nd @ todo) = Some out'"
    and out: "out = emp nd # out'"
    by (auto split: option.splits)
  have "set out' \<subseteq> set r"
    using "3.hyps" [OF nd out'] .
  moreover have "emp nd \<in> set r"
    using storeOf_Some [OF d nd] by simp
  ultimately show ?case using out by simp
qed

lemma viaManager_Cons:
  "viaManager e (a # xs) = (if managerId e = Some a then 1 else 0) + viaManager e xs"
  by (simp add: viaManager_def split: option.splits)

lemma forestNodes_count:
  assumes d: "distinct (map emp_id r)" and e: "e \<in> set r"
  shows "forestNodes (storeOf r) n todo = Some out \<Longrightarrow>
         count_list (map emp_id out) (emp_id e) =
           count_list todo (emp_id e) + viaManager e (map emp_id out)"
proof (induction "storeOf r" n todo arbitrary: out rule: forestNodes.induct)
  case (1 fuel)
  then show ?case by (simp add: viaManager_def split: option.splits)
next
  case (2 a todo)
  then show ?case by simp
next
  case (3 fuel a todo)
  from "3.prems" obtain nd out' where nd: "storeOf r a = Some nd"
    and out': "forestNodes (storeOf r) fuel (children nd @ todo) = Some out'"
    and out: "out = emp nd # out'"
    by (auto split: option.splits)
  have nd_a: "emp_id (emp nd) = a" and kids: "children nd = map emp_id (directReports r a)"
    using storeOf_Some [OF d nd] by simp_all
  have IH: "count_list (map emp_id out') (emp_id e) =
            count_list (children nd @ todo) (emp_id e) + viaManager e (map emp_id out')"
    using "3.hyps" [OF nd out'] .
  have "count_list (children nd) (emp_id e) = (if managerId e = Some a then 1 else 0)"
    unfolding kids using d e by (rule count_directReports)
  with IH show ?case
    unfolding out by (simp add: nd_a viaManager_Cons)
qed

lemma forestNodes_fuel:
  "forestNodes h n todo = Some out \<Longrightarrow> length out \<le> m \<Longrightarrow> forestNodes h m todo = Some out"
proof (induction h n todo arbitrary: out m rule: forestNodes.induct)
  case (1 h fuel)
  then show ?case by simp
next
  case (2 h a todo)
  then show ?case by simp
next
  case (3 h fuel a todo)
  from "3.prems"(1) obtain nd out' where nd: "h a = Some nd"
    and out': "forestNodes h fuel (children nd @ todo) = Some out'"
    and out: "out = emp nd # out'"
    by (auto split: option.splits)
  from "3.prems"(2) out obtain m' where m: "m = Suc m'" and le: "length out' \<le> m'"
    by (cases m) auto
  have "forestNodes h m' (children nd @ todo) = Some out'"
    using "3.IH" [OF nd out' le] .
  then show ?case using nd m out by simp
qed

lemma each_once:
  assumes d: "distinct (map emp_id r)" and ac: "acyclic (parentRel r)"
    and out: "forestNodes (storeOf r) n (fst (buildTree r)) = Some out"
  shows "y \<in> ids r \<Longrightarrow> count_list (map emp_id out) y = 1"
proof -
  have wf: "wf ((parentRel r)\<inverse>)"
    using finite_parentRel ac by (rule finite_acyclic_wf_converse)
  have sub: "set (map emp_id out) \<subseteq> ids r"
    using forestNodes_records [OF d out] by (auto simp: ids_def)
  show "y \<in> ids r \<Longrightarrow> count_list (map emp_id out) y = 1"
    using wf
  proof (induction y rule: wf_induct_rule)
    case (less y)
    from less.prems obtain e where e: "e \<in> set r" "emp_id e = y"
      by (auto simp: ids_def)
    have eq: "count_list (map emp_id out) y =
              (if isRoot (ids r) e then 1 else 0) + viaManager e (map emp_id out)"
      using forestNodes_count [OF d e(1) out] count_roots [OF d e(1)] e(2) by simp
    show ?case
    proof (cases "managerId e")
      case None
      then show ?thesis using eq by (simp add: isRoot_def viaManager_def)
    next
      case (Some p)
      show ?thesis
      proof (cases "p \<in> ids r")
        case True
        have "(y, p) \<in> parentRel r"
          using e Some True by (auto simp: parentRel_def)
        then have "count_list (map emp_id out) p = 1"
          using less.IH [of p] True by simp
        then show ?thesis
          using eq Some True by (simp add: isRoot_def viaManager_def)
      next
        case False
        then have "p \<notin> set (map emp_id out)" using sub by blast
        then have "count_list (map emp_id out) p = 0" by (rule count_notin)
        then show ?thesis
          using eq Some False by (simp add: isRoot_def viaManager_def)
      qed
    qed
  qed
qed

lemma distinct_count:
  "(\<And>y. count_list xs y \<le> 1) \<Longrightarrow> distinct xs"
proof (induction xs)
  case Nil
  show ?case by simp
next
  case (Cons a xs)
  have "count_list (a # xs) a \<le> 1" by (rule Cons.prems)
  then have "count_list xs a = 0" by simp
  then have "a \<notin> set xs" by (simp add: count_list_0_iff)
  moreover have "count_list xs y \<le> 1" for y
    using Cons.prems [of y] by (simp split: if_splits)
  ultimately show ?case using Cons.IH by simp
qed

section \<open>The roots of the forest\<close>

text \<open>
  The claim C8 as it is written fails. Of two records with the same identifier and no
  manager, the map keeps one node, with the fields of the second: both roots are that
  node, and the first record, whose manager is absent, is no root and no node at all.
\<close>

theorem buildTree_root_policy_counterexample:
  "twinRoots ! 0 \<in> set twinRoots \<and> managerId (twinRoots ! 0) = None \<and>
   fst (buildTree twinRoots) = [1, 1] \<and>
   map_option emp (snd (buildTree twinRoots) 1) = Some (twinRoots ! 1) \<and>
   twinRoots ! 0 \<noteq> twinRoots ! 1 \<and>
   treeNodes (buildTree twinRoots) (length twinRoots) = Some [twinRoots ! 1, twinRoots ! 1] \<and>
   twinRoots ! 0 \<notin> set [twinRoots ! 1, twinRoots ! 1]"
  by (simp add: twinRoots_def treeNodes_def buildTree_def firstPass_def
      secondPass_step_def numeral_2_eq_2)

text \<open>
  Claim C8, amended. The identifier of a record of the collection whose manager is
  absent, or is the identifier of no record of the collection, is among the roots that
  \<open>buildTree\<close> returns. The root node under that identifier carries the last record
  of the collection with that identifier, which is the record itself when the
  identifiers of the collection are distinct.
\<close>

theorem buildTree_root_policy:
  assumes "e \<in> set r"
    and "managerId e = None \<or> (\<exists>m. managerId e = Some m \<and> m \<notin> ids r)"
  shows "emp_id e \<in> set (fst (buildTree r)) \<and>
         map_option emp (snd (buildTree r) (emp_id e)) =
           Some (last (filter (\<lambda>e'. emp_id e' = emp_id e) r)) \<and>
         (distinct (map emp_id r) \<longrightarrow> map_option emp (snd (buildTree r) (emp_id e)) = Some e)"
proof -
  have "isRoot (ids r) e"
    using assms(2) by (auto simp: isRoot_def)
  then have "emp_id e \<in> set (fst (buildTree r))"
    using assms(1) by (simp add: buildTree_eq)
  moreover have carries: "map_option emp (snd (buildTree r) (emp_id e)) =
      Some (last (filter (\<lambda>e'. emp_id e' = emp_id e) r))"
    using assms(1) by (simp add: buildTree_eq ids_def)
  moreover have "map_option emp (snd (buildTree r) (emp_id e)) = Some e"
    if "distinct (map emp_id r)"
    using carries last_filter_unique [OF that assms(1)] by simp
  ultimately show ?thesis by blast
qed

theorem buildTree_root_policy_witness:
  "orphanPair ! 0 \<in> set orphanPair \<and> managerId (orphanPair ! 0) = None \<and>
   orphanPair ! 1 \<in> set orphanPair \<and> managerId (orphanPair ! 1) = Some 99 \<and>
   99 \<notin> ids orphanPair \<and> distinct (map emp_id orphanPair) \<and>
   emp_id (orphanPair ! 0) \<in> set (fst (buildTree orphanPair)) \<and>
   map_option emp (snd (buildTree orphanPair) (emp_id (orphanPair ! 0))) = Some (orphanPair ! 0) \<and>
   emp_id (orphanPair ! 1) \<in> set (fst (buildTree orphanPair)) \<and>
   map_option emp (snd (buildTree orphanPair) (emp_id (orphanPair ! 1))) = Some (orphanPair ! 1)"
proof -
  have a: "orphanPair ! 0 \<in> set orphanPair" "orphanPair ! 1 \<in> set orphanPair"
    by (simp_all add: orphanPair_def)
  have b: "managerId (orphanPair ! 0) = None" "managerId (orphanPair ! 1) = Some 99"
    by (simp_all add: orphanPair_def)
  have c: "99 \<notin> ids orphanPair" "distinct (map emp_id orphanPair)"
    by (simp_all add: orphanPair_def ids_def)
  show ?thesis
    using buildTree_root_policy [of "orphanPair ! 0" orphanPair]
      buildTree_root_policy [of "orphanPair ! 1" orphanPair] a b c
    by simp
qed

section \<open>Completeness of the forest\<close>

text \<open>
  The claim C2 as it is written fails. Two employees that manage each other are both
  pushed onto the other's children and none onto the roots: the forest of these two
  records is empty. Two roots with the same identifier share one node, which is listed
  twice, and the first record is in no node.
\<close>

theorem buildTree_forest_counterexample:
  "loopPair \<noteq> [] \<and> length loopPair = 2 \<and>
   treeNodes (buildTree loopPair) (length loopPair) = Some [] \<and>
   twinRoots \<noteq> [] \<and>
   treeNodes (buildTree twinRoots) (length twinRoots) = Some [twinRoots ! 1, twinRoots ! 1]"
  by (simp add: loopPair_def twinRoots_def treeNodes_def buildTree_def firstPass_def
      secondPass_step_def numeral_2_eq_2)

text \<open>
  Claim C2, amended. For a collection with distinct identifiers and an acyclic parent
  relation, reading the forest of \<open>buildTree\<close> with one unit of fuel per record
  lists as many nodes as there are records, every record of the collection is listed,
  and no identifier is listed twice.
\<close>

theorem buildTree_forest_complete:
  assumes d: "distinct (map emp_id r)" and ac: "acyclic (parentRel r)"
  shows "\<exists>out. treeNodes (buildTree r) (length r) = Some out \<and>
           length out = length r \<and> set out = set r \<and> distinct (map emp_id out)"
proof -
  obtain n out where out: "forestNodes (storeOf r) n (fst (buildTree r)) = Some out"
    using reads_roots [OF d ac] unfolding reads_def by blast
  have once: "count_list (map emp_id out) y = 1" if "y \<in> ids r" for y
    using each_once [OF d ac out that] .
  have sub: "set out \<subseteq> set r"
    using forestNodes_records [OF d out] .
  have dist: "distinct (map emp_id out)"
  proof (rule distinct_count)
    fix y show "count_list (map emp_id out) y \<le> 1"
    proof (cases "y \<in> ids r")
      case True
      then show ?thesis using once by simp
    next
      case False
      then have "y \<notin> set (map emp_id out)" using sub by (auto simp: ids_def)
      then show ?thesis by simp
    qed
  qed
  have idset: "set (map emp_id out) = set (map emp_id r)"
  proof
    show "set (map emp_id out) \<subseteq> set (map emp_id r)" using sub by auto
    show "set (map emp_id r) \<subseteq> set (map emp_id out)"
    proof
      fix y assume "y \<in> set (map emp_id r)"
      then have "y \<in> ids r" by (simp add: ids_def)
      then have "count_list (map emp_id out) y \<noteq> 0" using once by simp
      then show "y \<in> set (map emp_id out)" by (simp add: count_list_0_iff)
    qed
  qed
  have "length (map emp_id out) = length (map emp_id r)"
    using dist d idset by (metis distinct_card)
  then have len: "length out = length r" by simp
  have "set r \<subseteq> set out"
  proof
    fix e assume e: "e \<in> set r"
    then have "emp_id e \<in> set (map emp_id out)" using idset by auto
    then obtain e' where e': "e' \<in> set out" "emp_id e' = emp_id e" by auto
    then have "e' = e" using e sub d by (auto simp: distinct_map dest: inj_onD)
    with e' show "e \<in> set out" by simp
  qed
  with sub have seteq: "set out = set r" by auto
  have "forestNodes (storeOf r) (length r) (fst (buildTree r)) = Some out"
    using forestNodes_fuel [OF out] len by simp
  then have "treeNodes (buildTree r) (length r) = Some out"
    by (simp add: treeNodes_def storeOf_def)
  with len seteq dist show ?thesis by blast
qed

theorem buildTree_forest_complete_witness:
  "mockEmployees \<noteq> [] \<and> distinct (map emp_id mockEmployees) \<and>
   acyclic (parentRel mockEmployees) \<and>
   (\<exists>out. treeNodes (buildTree mockEmployees) (length mockEmployees) = Some out \<and>
      length out = length mockEmployees \<and> set out = set mockEmployees \<and>
      distinct (map emp_id out))"
proof -
  have ne: "mockEmployees \<noteq> []" and d: "distinct (map emp_id mockEmployees)"
    by (simp_all add: mockEmployees_def)
  show ?thesis
    using buildTree_forest_complete [OF d acyclic_mock] ne d acyclic_mock by simp
qed

section \<open>Applying a new manager\<close>

lemma spread_managerUpdate: "spread e (managerUpdate new) = e\<lparr>managerId := new\<rparr>"
  by (simp add: spread_def managerUpdate_def)

lemma map_unknown_target:
  "i \<notin> ids r \<Longrightarrow> map (\<lambda>e. if emp_id e = i then f e else e) r = r"
  by (induction r) (auto simp: ids_def)

lemma updateEmployeeManager_Responded:
  "updateEmployeeManager st i new Responded =
     Inr (st\<lparr>employees := map (\<lambda>e. if emp_id e = i then e\<lparr>managerId := new\<rparr> else e) (employees st)\<rparr>)"
  by (simp add: updateEmployeeManager_def spread_managerUpdate)

lemma updateEmployeeManager_Inr:
  "updateEmployeeManager st i new net = Inr st' \<Longrightarrow>
     st' = st\<lparr>employees := map (\<lambda>e. if emp_id e = i then e\<lparr>managerId := new\<rparr> else e) (employees st)\<rparr>"
proof (cases net)
  case Responded
  assume "updateEmployeeManager st i new net = Inr st'"
  then show ?thesis
    unfolding Responded updateEmployeeManager_Responded by simp
next
  case (Threw msg)
  assume "updateEmployeeManager st i new net = Inr st'"
  then show ?thesis
    unfolding Threw by (simp add: updateEmployeeManager_def)
qed

text \<open>
  Claim C5. When \<open>updateEmployeeManager\<close> succeeds, the new collection has the
  records of the old one in the same order; a record with another identifier is the same
  record, and a record with the identifier \<open>i\<close> differs only in its manager, which
  is the new one. Nothing else of the state changes.
\<close>

theorem reparent_frame:
  assumes "updateEmployeeManager st i new net = Inr st'"
  shows "length (employees st') = length (employees st) \<and>
         (\<forall>k < length (employees st).
            (emp_id (employees st ! k) \<noteq> i \<longrightarrow> employees st' ! k = employees st ! k) \<and>
            (emp_id (employees st ! k) = i \<longrightarrow>
               employees st' ! k = (employees st ! k)\<lparr>managerId := new\<rparr>)) \<and>
         loading st' = loading st \<and> error st' = error st \<and>
         searchTerm st' = searchTerm st \<and> selectedTeam st' = selectedTeam st"
  using updateEmployeeManager_Inr [OF assms] by simp

theorem reparent_frame_witness:
  "updateEmployeeManager mockState 5 (Some 2) Responded =
     Inr (mockState\<lparr>employees := mockEmployees[4 := (mockEmployees ! 4)\<lparr>managerId := Some 2\<rparr>]\<rparr>) \<and>
   length (mockEmployees[4 := (mockEmployees ! 4)\<lparr>managerId := Some 2\<rparr>]) = length mockEmployees \<and>
   emp_id (mockEmployees ! 3) \<noteq> 5 \<and>
   mockEmployees[4 := (mockEmployees ! 4)\<lparr>managerId := Some 2\<rparr>] ! 3 = mockEmployees ! 3 \<and>
   emp_id (mockEmployees ! 4) = 5 \<and>
   mockEmployees[4 := (mockEmployees ! 4)\<lparr>managerId := Some 2\<rparr>] ! 4 =
     (mockEmployees ! 4)\<lparr>managerId := Some 2\<rparr>"
proof -
  have u: "updateEmployeeManager mockState 5 (Some 2) Responded =
     Inr (mockState\<lparr>employees := mockEmployees[4 := (mockEmployees ! 4)\<lparr>managerId := Some 2\<rparr>]\<rparr>)"
    by (simp add: updateEmployeeManager_Responded mockState_def) (simp add: mockEmployees_def)
  show ?thesis
    using reparent_frame [OF u] u
    by (simp add: mockState_def) (simp add: mockEmployees_def)
qed

text \<open>
  Claim C7. When no record has the identifier \<open>i\<close>, the action
  \<open>UPDATE_EMPLOYEE\<close> with target \<open>i\<close> returns the state as it was, and so does
  \<open>updateEmployeeManager\<close>, without an error.
\<close>

theorem update_unknown_target_noop:
  assumes "i \<notin> ids (employees st)"
  shows "employeeReducer st (UPDATE_EMPLOYEE i updates) = st \<and>
         updateEmployeeManager st i new Responded = Inr st"
  using assms by (simp add: updateEmployeeManager_def map_unknown_target)

theorem update_unknown_target_noop_witness:
  "42 \<notin> ids (employees mockState) \<and>
   employeeReducer mockState (UPDATE_EMPLOYEE 42 (managerUpdate (Some 1))) = mockState \<and>
   updateEmployeeManager mockState 42 (Some 1) Responded = Inr mockState"
proof -
  have u: "42 \<notin> ids (employees mockState)"
    by (simp add: ids_def mockState_def mockEmployees_def)
  show ?thesis
    using update_unknown_target_noop [OF u, of "managerUpdate (Some 1)" "Some 1"] u by simp
qed

text \<open>
  The claim C6 as it is written fails: with an employee that is no record, and with a new
  manager that is no record, the update returns without an error, and in the second case
  the collection has changed.
\<close>

theorem updateEmployeeManager_NotFound_counterexample:
  "42 \<notin> ids (employees mockState) \<and>
   updateEmployeeManager mockState 42 (Some 1) Responded = Inr mockState \<and>
   5 \<in> ids (employees mockState) \<and> 99 \<notin> ids (employees mockState) \<and>
   map_sum (\<lambda>msg. msg) (\<lambda>s. map managerId (employees s))
     (updateEmployeeManager mockState 5 (Some 99) Responded) =
     Inr [None, Some 1, Some 1, Some 2, Some 99] \<and>
   map managerId (employees mockState) = [None, Some 1, Some 1, Some 2, Some 4]"
  by (simp add: updateEmployeeManager_Responded ids_def mockState_def mockEmployees_def)

text \<open>
  Claim C6, amended. \<open>updateEmployeeManager\<close> fails only when the request throws,
  and then with what was thrown; it has no error for an identifier that does not
  resolve. With an employee that is no record the state is returned as it was. With a
  new manager that is no record the update is applied all the same: the records with
  the identifier \<open>i\<close> get the unresolved manager.
\<close>

theorem updateEmployeeManager_unresolved:
  "(updateEmployeeManager st i new net = Inl msg \<longleftrightarrow> net = Threw msg) \<and>
   (i \<notin> ids (employees st) \<longrightarrow> updateEmployeeManager st i new Responded = Inr st) \<and>
   (new = Some m \<and> m \<notin> ids (employees st) \<longrightarrow>
      updateEmployeeManager st i new Responded =
        Inr (st\<lparr>employees :=
               map (\<lambda>e. if emp_id e = i then e\<lparr>managerId := Some m\<rparr> else e) (employees st)\<rparr>))"
proof (intro conjI impI)
  show "updateEmployeeManager st i new net = Inl msg \<longleftrightarrow> net = Threw msg"
    by (cases net) (simp_all add: updateEmployeeManager_def)
next
  assume "i \<notin> ids (employees st)"
  then show "updateEmployeeManager st i new Responded = Inr st"
    by (simp add: updateEmployeeManager_Responded map_unknown_target)
next
  assume "new = Some m \<and> m \<notin> ids (employees st)"
  then show "updateEmployeeManager st i new Responded =
        Inr (st\<lparr>employees :=
               map (\<lambda>e. if emp_id e = i then e\<lparr>managerId := Some m\<rparr> else e) (employees st)\<rparr>)"
    by (simp add: updateEmployeeManager_Responded)
qed

theorem updateEmployeeManager_unresolved_witness:
  "42 \<notin> ids (employees mockState) \<and>
   updateEmployeeManager mockState 42 (Some 1) Responded = Inr mockState \<and>
   99 \<notin> ids (employees mockState) \<and>
   updateEmployeeManager mockState 5 (Some 99) Responded =
     Inr (mockState\<lparr>employees := mockEmployees[4 := (mockEmployees ! 4)\<lparr>managerId := Some 99\<rparr>]\<rparr>) \<and>
   updateEmployeeManager mockState 5 (Some 99) (Threw ''offline'') = Inl ''offline''"
proof -
  have a: "42 \<notin> ids (employees mockState)" and b: "99 \<notin> ids (employees mockState)"
    by (simp_all add: ids_def mockState_def mockEmployees_def)
  have m: "map (\<lambda>e. if emp_id e = 5 then e\<lparr>managerId := Some 99\<rparr> else e) (employees mockState) =
           mockEmployees[4 := (mockEmployees ! 4)\<lparr>managerId := Some 99\<rparr>]"
    by (simp add: mockState_def mockEmployees_def)
  show ?thesis
    using updateEmployeeManager_unresolved [of mockState 42 "Some 1" Responded "''offline''" 1]
      updateEmployeeManager_unresolved [of mockState 5 "Some 99" "Threw ''offline''" "''offline''" 99]
      a b m
    by simp
qed

section \<open>Rejecting a drop\<close>

text \<open>
  The claim C4 as it is written fails: the guard reports a cycle when a card is dropped on
  itself, and the handler returns before it asks the guard, showing nothing.
\<close>

theorem handleDragEnd_cycle_counterexample:
  "wouldCreateCircularReference mockEmployees 2 2 = Some True \<and>
   handleDragEnd mockState 2 (Some 2) Responded = Some (Silent, mockState)"
  by (simp add: wouldCreateCircularReference_def handleDragEnd_def)

text \<open>
  Claim C4, amended. When the guard reports a cycle for a drop, the handler leaves the
  state, and with it the collection, as it was: it shows the alert about the circular
  structure when the two identifiers differ, and nothing when they are equal.
\<close>

theorem handleDragEnd_cycle_rejected:
  assumes "wouldCreateCircularReference (employees st) activeId overId = Some True"
  shows "handleDragEnd st activeId (Some overId) net =
           Some (if activeId = overId then Silent
                 else Alert ''Cannot create circular reporting structure!'', st)"
  using assms by (simp add: handleDragEnd_def)

theorem handleDragEnd_cycle_rejected_witness:
  "wouldCreateCircularReference (employees mockState) 1 5 = Some True \<and>
   handleDragEnd mockState 1 (Some 5) Responded =
     Some (Alert ''Cannot create circular reporting structure!'', mockState)"
proof -
  have g: "wouldCreateCircularReference (employees mockState) 1 5 = Some True"
    by (simp add: wouldCreateCircularReference_def mockState_def reports_mock_1)
       (simp add: mockEmployees_def)
  show ?thesis
    using handleDragEnd_cycle_rejected [OF g, of Responded] g by simp
qed

section \<open>The empty filters\<close>

text \<open>
  Claim C9. With an empty search text and an empty team filter, \<open>filterEmployees\<close>
  returns the whole collection: the same records in the same order, none dropped and none
  duplicated, whatever the two library functions do.
\<close>

theorem filterEmployees_empty_filters:
  "filterEmployees toLowerCase toString r [] [] = r"
  by (simp add: filterEmployees_def)

theorem filterEmployees_empty_filters_witness:
  "filterEmployees asciiLowerCase decimalString mockEmployees [] [] = mockEmployees"
  using filterEmployees_empty_filters [of asciiLowerCase decimalString mockEmployees] by simp

text \<open>The search of the unit tests: \<^verbatim>\<open>'ceo'\<close> finds the one employee named CEO.\<close>

lemma filterEmployees_ceo:
  "filterEmployees asciiLowerCase decimalString mockEmployees ''ceo'' [] = [mockEmployees ! 0]"
  by code_simp

end
